theory Spec2Isabelle
  imports Complex_Main "HOL-Library.Word" "HOL-Library.Log_Nat"
begin

section \<open>The moisture sensor node (moisture-sensor.ino)\<close>

text \<open>
  The sketch is a duty-cycle controller: \<open>loop\<close> calls \<open>processMoisture\<close>,
  \<open>processBattery\<close> and \<open>processReset\<close> in this order and then sleeps. Its state is five
  global variables. The model threads a record of these variables through one HOL function per
  C function, returns the calls into the radio library as a list of actions, and takes what the
  hardware delivers (analog samples, the gauge's state of charge, incoming radio messages) as
  arguments.
\<close>

subsection \<open>Compile-time constants (lines 53 to 79)\<close>

definition CYCLE_DURATION :: nat where
  "CYCLE_DURATION = 1200000"

definition FORCE_SEND_AFTER_N_CYCLE :: "16 word" where
  "FORCE_SEND_AFTER_N_CYCLE = 3"

definition RESET_AFTER_N_CYCLE :: "16 word" where
  "RESET_AFTER_N_CYCLE = 36"

definition SEND_BATTERY_LOW_AFTER_N_CYCLE :: "16 word" where
  "SEND_BATTERY_LOW_AFTER_N_CYCLE = 3"

definition BATTERY_LOW_LIMIT :: rat where
  "BATTERY_LOW_LIMIT = 10"

definition NUM_READS :: int where
  "NUM_READS = 10"

definition CHILD_VALUE_ID :: "8 word" where
  "CHILD_VALUE_ID = 0"

definition RESET_PIN :: nat where
  "RESET_PIN = 2"

subsection \<open>Single-precision arithmetic\<close>

text \<open>
  On the AVR target \<open>float\<close> and \<open>double\<close> are both IEEE binary32. A finite float is a
  rational number; an operation computes the exact result and rounds it to 24 significant bits,
  ties to even. Exponent range is not modelled: the values of the sketch are far away from
  overflow and underflow.

  \<open>flog2 x\<close> is the integer part of the binary logarithm of a positive rational, found from the
  bit lengths of numerator and denominator.
\<close>

definition rnd_even :: "rat \<Rightarrow> int" where
  "rnd_even x =
     (let f = \<lfloor>x\<rfloor>; d = x - of_int f
      in if d < 1 / 2 then f
         else if 1 / 2 < d then f + 1
         else if even f then f else f + 1)"

definition flog2 :: "rat \<Rightarrow> int" where
  "flog2 x =
     (let (a, b) = quotient_of x; d = bitlen a - bitlen b
      in if 2 powi d \<le> x then d else d - 1)"

definition fl :: "rat \<Rightarrow> rat" where
  "fl x =
     (if x = 0 then 0
      else let e = flog2 \<bar>x\<bar> - 23
           in of_int (rnd_even (x / 2 powi e)) * 2 powi e)"

definition float_of_int :: "int \<Rightarrow> rat" where
  "float_of_int n = fl (of_int n)"

definition fmul :: "rat \<Rightarrow> rat \<Rightarrow> rat" where
  "fmul a b = fl (a * b)"

definition fdiv :: "rat \<Rightarrow> rat \<Rightarrow> rat" where
  "fdiv a b = fl (a / b)"

text \<open>The C library's \<open>round\<close>: to the nearest integer, halfway cases away from zero.\<close>

definition c_round :: "rat \<Rightarrow> rat" where
  "c_round x = (if 0 \<le> x then of_int \<lfloor>x + 1 / 2\<rfloor> else of_int \<lceil>x - 1 / 2\<rceil>)"

text \<open>Conversion of a float to an integer type truncates towards zero.\<close>

definition c_trunc :: "rat \<Rightarrow> int" where
  "c_trunc x = (if 0 \<le> x then \<lfloor>x\<rfloor> else \<lceil>x\<rceil>)"

definition uint8_of_float :: "rat \<Rightarrow> 8 word" where
  "uint8_of_float x = word_of_int (c_trunc x)"

subsection \<open>State, messages and actions\<close>

text \<open>
  The five globals of lines 86 to 90. \<open>adcReads\<close> is not a program variable: it counts the
  analog conversions performed so far, so that the k-th call of \<open>analogRead\<close> returns the k-th
  sample of the input stream.
\<close>

record node =
  lastProbeValue :: int
  cycleCpt :: "16 word"
  batteryLowCpt :: "16 word"
  cycleCptReset :: "16 word"
  probeValueReceived :: bool
  adcReads :: nat

text \<open>What \<open>receive\<close> reads of a \<open>MyMessage\<close>: the child id and the acknowledgement flag.\<close>

record message =
  sensor :: "8 word"
  isAck :: bool

text \<open>
  Calls into the Arduino core and the radio library, in program order. \<open>Send c v a\<close> is
  \<open>send(messageValue.set(v), a)\<close> for the message of child \<open>c\<close>; \<open>SleepInterrupt i ms\<close> is
  \<open>sleep(i, CHANGE, ms)\<close>, where \<open>ms = 0\<close> means no timeout.
\<close>

datatype action =
    Delay nat
  | Send "8 word" int bool
  | Wait nat
  | SendBatteryLevel "8 word"
  | Sleep nat
  | SleepInterrupt nat nat
  | DigitalWrite nat bool
  | Jmp0

text \<open>A function either returns, or jumps to the reset vector and never returns.\<close>

datatype outcome =
    is_Running: Running (actions: "action list") (node_of: node)
  | is_Restart: Restart (actions: "action list") (node_of: node)

subsection \<open>Power-on and \<open>setup\<close> (lines 86 to 125)\<close>

text \<open>
  Globals without an initialiser start at zero; \<open>probeValueReceived\<close> starts true. Of
  \<open>setup\<close> only the assignment of line 120 touches the state: the pin configuration and the
  initialisation of the gauge do not.
\<close>

definition power_on :: node where
  "power_on =
     \<lparr>lastProbeValue = 0, cycleCpt = 0, batteryLowCpt = 0, cycleCptReset = 0,
      probeValueReceived = True, adcReads = 0\<rparr>"

definition setup_node :: "node \<Rightarrow> node" where
  "setup_node s = s\<lparr>cycleCpt := FORCE_SEND_AFTER_N_CYCLE\<rparr>"

subsection \<open>\<open>receive\<close> (lines 151 to 158)\<close>

definition receive :: "message \<Rightarrow> node \<Rightarrow> node" where
  "receive m s =
     (if sensor m = CHILD_VALUE_ID \<and> isAck m then s\<lparr>probeValueReceived := True\<rparr> else s)"

text \<open>
  \<open>wait\<close> lets the radio library process incoming messages: \<open>receive\<close> runs once for each
  message of the inbox, in order of arrival.
\<close>

definition wait :: "message list \<Rightarrow> node \<Rightarrow> node" where
  "wait inbox s = fold receive inbox s"

subsection \<open>\<open>restart\<close> and \<open>doRestart\<close> (lines 163 to 193)\<close>

definition doRestart :: "bool \<Rightarrow> node \<Rightarrow> outcome" where
  "doRestart software s =
     (let s1 = s\<lparr>cycleCptReset := 0\<rparr>
      in if software then Restart [Jmp0] s1
         else Running [DigitalWrite RESET_PIN False] s1)"

definition restart :: "node \<Rightarrow> outcome" where
  "restart s = doRestart True s"

subsection \<open>\<open>processMoisture\<close> (lines 200 to 236)\<close>

text \<open>Line 206: the raw sample scaled to a percentage.\<close>

definition scaleProbe :: "int \<Rightarrow> int" where
  "scaleProbe probeValueGross =
     c_trunc (c_round (fdiv (fmul 100 (float_of_int probeValueGross)) 1024))"

text \<open>Lines 217 to 227: the assignments of the sending branch and the call of \<open>send\<close>.\<close>

definition sendProbeValue :: "int \<Rightarrow> node \<Rightarrow> action list \<times> node" where
  "sendProbeValue probeValue s =
     ([Send CHILD_VALUE_ID probeValue True],
      s\<lparr>lastProbeValue := probeValue, cycleCpt := 0, probeValueReceived := False\<rparr>)"

text \<open>
  \<open>adc\<close> is the stream of samples of the moisture pin and \<open>inbox\<close> holds the messages that
  arrive during the \<open>wait\<close> of line 229. The result is the returned flag, the actions and the
  new state.
\<close>

definition processMoisture ::
  "(nat \<Rightarrow> int) \<Rightarrow> message list \<Rightarrow> node \<Rightarrow> bool \<times> action list \<times> node" where
  "processMoisture adc inbox s =
     (let probeValueGross = adc (adcReads s);
          s0 = s\<lparr>adcReads := adcReads s + 1\<rparr>;
          probeValue = scaleProbe probeValueGross
      in if probeValue \<noteq> lastProbeValue s0 \<or> cycleCpt s0 = FORCE_SEND_AFTER_N_CYCLE
            \<or> \<not> probeValueReceived s0
         then let (t, s1) = sendProbeValue probeValue s0
              in (True, Delay 1000 # t @ [Wait 1000], wait inbox s1)
         else (False, [Delay 1000], s0\<lparr>cycleCpt := cycleCpt s0 + 1\<rparr>))"

subsection \<open>\<open>processBattery\<close> (lines 265 to 302)\<close>

text \<open>Lines 282 to 287: counting consecutive low readings.\<close>

definition countBatteryLow :: "rat \<Rightarrow> node \<Rightarrow> node" where
  "countBatteryLow batteryLevel s =
     (if batteryLevel < BATTERY_LOW_LIMIT then s\<lparr>batteryLowCpt := batteryLowCpt s + 1\<rparr>
      else s\<lparr>batteryLowCpt := 0\<rparr>)"

text \<open>Line 290: the test that guards the low-power branch.\<close>

definition batteryLowConfirmed :: "node \<Rightarrow> bool" where
  "batteryLowConfirmed s = (SEND_BATTERY_LOW_AFTER_N_CYCLE \<le> batteryLowCpt s)"

text \<open>\<open>batteryLevel\<close> is the state of charge that the gauge returns at line 269.\<close>

definition processBattery :: "rat \<Rightarrow> bool \<Rightarrow> node \<Rightarrow> action list \<times> node" where
  "processBattery batteryLevel allowSend s =
     (let t1 = (if allowSend then [SendBatteryLevel (uint8_of_float batteryLevel)] else []);
          s1 = countBatteryLow batteryLevel s
      in if batteryLowConfirmed s1
         then (t1 @ [SendBatteryLevel 0, SleepInterrupt 1 0], s1\<lparr>batteryLowCpt := 0\<rparr>)
         else (t1, s1))"

subsection \<open>\<open>processReset\<close> (lines 307 to 315)\<close>

definition processReset :: "node \<Rightarrow> outcome" where
  "processReset s =
     (let s1 = s\<lparr>cycleCptReset := cycleCptReset s + 1\<rparr>
      in if RESET_AFTER_N_CYCLE \<le> cycleCptReset s1 then restart s1 else Running [] s1)"

subsection \<open>\<open>loop\<close> (lines 130 to 146)\<close>

definition loop :: "(nat \<Rightarrow> int) \<Rightarrow> rat \<Rightarrow> message list \<Rightarrow> node \<Rightarrow> outcome" where
  "loop adc batteryLevel inbox s =
     (let (allowSend, t1, s1) = processMoisture adc inbox s;
          (t2, s2) = processBattery batteryLevel allowSend s1
      in case processReset s2 of
           Restart t3 s3 \<Rightarrow> Restart (t1 @ t2 @ t3) s3
         | Running t3 s3 \<Rightarrow> Running (t1 @ t2 @ t3 @ [Sleep CYCLE_DURATION]) s3)"

subsection \<open>Runs of the node\<close>

text \<open>
  Between two calls of \<open>loop\<close> the library may deliver messages to \<open>receive\<close>. A jump to the
  reset vector starts the program again: the globals are initialised anew and \<open>setup\<close> runs.
  The analog input is not a program variable, so the count of conversions goes on.
\<close>

datatype event = Cycle rat "message list" | Receive message

definition boot :: "nat \<Rightarrow> node" where
  "boot k = setup_node (power_on\<lparr>adcReads := k\<rparr>)"

fun run :: "(nat \<Rightarrow> int) \<Rightarrow> event list \<Rightarrow> node \<Rightarrow> node" where
  "run adc [] s = s"
| "run adc (Receive m # es) s = run adc es (receive m s)"
| "run adc (Cycle batteryLevel inbox # es) s =
     (case loop adc batteryLevel inbox s of
        Running t s' \<Rightarrow> run adc es s'
      | Restart t s' \<Rightarrow> run adc es (boot (adcReads s')))"

subsection \<open>Successive battery checks\<close>

text \<open>
  \<open>batteryRuns\<close> calls \<open>processBattery\<close> once for each reading and records, for each call, the
  counter after the counting of lines 282 to 287, whether the low-power branch was entered, and
  the counter on return.
\<close>

fun batteryRuns :: "(rat \<times> bool) list \<Rightarrow> node \<Rightarrow> (16 word \<times> bool \<times> 16 word) list" where
  "batteryRuns [] s = []"
| "batteryRuns ((batteryLevel, allowSend) # rs) s =
     (let (t, s') = processBattery batteryLevel allowSend s
      in (batteryLowCpt (countBatteryLow batteryLevel s), SleepInterrupt 1 0 \<in> set t,
          batteryLowCpt s') # batteryRuns rs s')"

text \<open>
  The specification's description of the low-battery counter, on unbounded numbers: a reading
  below 10 adds one to the count of consecutive low readings, any other reading makes it zero;
  when the count is 3 the terminal branch is taken and the count starts again at zero.
\<close>

fun lowCounterSpec :: "nat \<Rightarrow> rat list \<Rightarrow> (nat \<times> bool \<times> nat) list" where
  "lowCounterSpec n [] = []"
| "lowCounterSpec n (x # xs) =
     (let c = (if x < 10 then n + 1 else 0)
      in if c = 3 then (c, True, 0) # lowCounterSpec 0 xs
         else (c, False, c) # lowCounterSpec c xs)"

section \<open>Properties\<close>

subsection \<open>Single-precision arithmetic is exact on the sketch's values\<close>

lemma rnd_even_of_int: "rnd_even (of_int n) = n"
  by (simp add: rnd_even_def)

lemma flog2_le:
  assumes "0 < x"
  shows "2 powi (flog2 x) \<le> x"
proof -
  obtain a b where q: "quotient_of x = (a, b)" by force
  have b: "0 < b" using quotient_of_denom_pos[OF q] .
  have x: "x = of_int a / of_int b" using quotient_of_div[OF q] .
  have a: "0 < a" using assms b x by (simp add: zero_less_divide_iff)
  let ?d = "bitlen a - bitlen b"
  show ?thesis
  proof (cases "2 powi ?d \<le> x")
    case True
    then show ?thesis using q by (simp add: flog2_def)
  next
    case False
    have la: "(2::int) ^ nat (bitlen a - 1) \<le> a" using bitlen_bounds[OF a] by simp
    have lb: "b < (2::int) ^ nat (bitlen b)" using bitlen_bounds[OF b] by simp
    have ba: "1 \<le> bitlen a" using a bitlen_eq_zero_iff[of a] bitlen_nonneg[of a] by linarith
    have bb: "0 \<le> bitlen b" by (rule bitlen_nonneg)
    have la': "(2::rat) powi (bitlen a - 1) \<le> of_int a"
    proof -
      have "(of_int ((2::int) ^ nat (bitlen a - 1)) :: rat) \<le> of_int a"
        using la by (simp only: of_int_le_iff)
      moreover have "(2::rat) powi (bitlen a - 1) = 2 ^ nat (bitlen a - 1)"
        using ba by (simp add: power_int_def)
      ultimately show ?thesis by simp
    qed
    have lb': "(of_int b :: rat) \<le> 2 powi (bitlen b)"
    proof -
      have "(of_int b :: rat) < of_int ((2::int) ^ nat (bitlen b))"
        using lb by (simp only: of_int_less_iff)
      moreover have "(2::rat) powi (bitlen b) = 2 ^ nat (bitlen b)"
        using bb by (simp add: power_int_def)
      ultimately show ?thesis by simp
    qed
    have "(2::rat) powi (?d - 1) = 2 powi (bitlen a - 1) / 2 powi (bitlen b)"
      by (simp add: power_int_diff)
    also have "\<dots> \<le> of_int a / 2 powi (bitlen b)"
      using la' by (simp add: divide_right_mono)
    also have "\<dots> \<le> of_int a / of_int b"
      using lb' a b by (simp add: frac_le)
    finally have "(2::rat) powi (?d - 1) \<le> x" using x by simp
    then show ?thesis using q False by (simp add: flog2_def)
  qed
qed

lemma flog2_gt:
  assumes "0 < x"
  shows "x < 2 powi (flog2 x + 1)"
proof -
  obtain a b where q: "quotient_of x = (a, b)" by force
  have b: "0 < b" using quotient_of_denom_pos[OF q] .
  have x: "x = of_int a / of_int b" using quotient_of_div[OF q] .
  have a: "0 < a" using assms b x by (simp add: zero_less_divide_iff)
  let ?d = "bitlen a - bitlen b"
  show ?thesis
  proof (cases "2 powi ?d \<le> x")
    case False
    then show ?thesis using q by (simp add: flog2_def)
  next
    case True
    have la: "a < (2::int) ^ nat (bitlen a)" using bitlen_bounds[OF a] by simp
    have lb: "(2::int) ^ nat (bitlen b - 1) \<le> b" using bitlen_bounds[OF b] by simp
    have ba: "0 \<le> bitlen a" by (rule bitlen_nonneg)
    have bb: "1 \<le> bitlen b" using b bitlen_eq_zero_iff[of b] bitlen_nonneg[of b] by linarith
    have la': "(of_int a :: rat) < 2 powi (bitlen a)"
    proof -
      have "(of_int a :: rat) < of_int ((2::int) ^ nat (bitlen a))"
        using la by (simp only: of_int_less_iff)
      moreover have "(2::rat) powi (bitlen a) = 2 ^ nat (bitlen a)"
        using ba by (simp add: power_int_def)
      ultimately show ?thesis by simp
    qed
    have lb': "(2::rat) powi (bitlen b - 1) \<le> of_int b"
    proof -
      have "(of_int ((2::int) ^ nat (bitlen b - 1)) :: rat) \<le> of_int b"
        using lb by (simp only: of_int_le_iff)
      moreover have "(2::rat) powi (bitlen b - 1) = 2 ^ nat (bitlen b - 1)"
        using bb by (simp add: power_int_def)
      ultimately show ?thesis by simp
    qed
    have "of_int a / of_int b < (2::rat) powi (bitlen a) / of_int b"
      using la' b by (simp add: divide_strict_right_mono)
    also have "\<dots> \<le> 2 powi (bitlen a) / 2 powi (bitlen b - 1)"
      using lb' by (simp add: frac_le)
    also have "\<dots> = 2 powi (?d + 1)"
      by (simp add: power_int_diff power_int_add field_simps)
    finally have "x < 2 powi (?d + 1)" using x by simp
    then show ?thesis using q True by (simp add: flog2_def)
  qed
qed

text \<open>Rounding is to nearest, ties to even: \<open>2 ^ 24 + 1\<close> and \<open>2 ^ 24 + 3\<close> are not floats.\<close>

lemma fl_rounds_to_even: "fl 16777217 = 16777216" "fl 16777219 = 16777220"
  by code_simp+

lemma fl_one_third: "fl (1 / 3) = 11184811 / 33554432"
  by code_simp

text \<open>A number with a significand of at most 24 bits is a float: rounding returns it.\<close>

lemma fl_exact:
  assumes m: "\<bar>m\<bar> < 2 ^ 24"
  shows "fl (of_int m * 2 powi k) = of_int m * 2 powi k"
proof (cases "m = 0")
  case True
  then show ?thesis by (simp add: fl_def)
next
  case False
  let ?x = "of_int m * 2 powi k :: rat"
  have x0: "?x \<noteq> 0" using False by simp
  have ax: "\<bar>?x\<bar> = of_int \<bar>m\<bar> * 2 powi k" by (simp add: abs_mult)
  have pos: "0 < \<bar>?x\<bar>" using x0 by simp
  have "(of_int \<bar>m\<bar> :: rat) < of_int (2 ^ 24)" using m by (simp only: of_int_less_iff)
  then have "(of_int \<bar>m\<bar> :: rat) < 2 powi 24" by simp
  then have "\<bar>?x\<bar> < 2 powi 24 * 2 powi k" unfolding ax
    by (simp add: mult_strict_right_mono)
  then have up: "\<bar>?x\<bar> < 2 powi (24 + k)" by (simp add: power_int_add)
  have "2 powi (flog2 \<bar>?x\<bar>) < (2::rat) powi (24 + k)"
    using flog2_le[OF pos] up by (rule le_less_trans)
  then have lt: "\<not> (2::rat) powi (24 + k) \<le> 2 powi (flog2 \<bar>?x\<bar>)"
    by (simp only: not_le)
  have "flog2 \<bar>?x\<bar> < 24 + k"
  proof (rule ccontr)
    assume "\<not> flog2 \<bar>?x\<bar> < 24 + k"
    then have "24 + k \<le> flog2 \<bar>?x\<bar>" by (simp only: not_less)
    then have "(2::rat) powi (24 + k) \<le> 2 powi (flog2 \<bar>?x\<bar>)"
      by (rule power_int_increasing) simp
    with lt show False by (rule notE)
  qed
  then have e: "flog2 \<bar>?x\<bar> - 23 \<le> k" by simp
  define e where "e = flog2 \<bar>?x\<bar> - 23"
  have ek: "0 \<le> k - e" using e by (simp add: e_def)
  have "?x / 2 powi e = of_int m * 2 powi (k - e)" by (simp add: power_int_diff)
  also have "\<dots> = of_int (m * 2 ^ nat (k - e))" using ek by (simp add: power_int_def)
  finally have q: "?x / 2 powi e = of_int (m * 2 ^ nat (k - e))" .
  have "fl ?x = of_int (rnd_even (?x / 2 powi e)) * 2 powi e"
    using x0 by (simp add: fl_def e_def Let_def)
  also have "\<dots> = of_int (m * 2 ^ nat (k - e)) * 2 powi e"
    by (simp only: q rnd_even_of_int)
  also have "\<dots> = ?x / 2 powi e * 2 powi e" by (simp only: q)
  also have "\<dots> = ?x" by simp
  finally show ?thesis .
qed

lemma fl_of_int: "\<bar>m\<bar> < 2 ^ 24 \<Longrightarrow> fl (of_int m) = of_int m"
  using fl_exact[of m 0] by simp

text \<open>
  For a 10-bit sample the conversion, the product with 100 and the quotient by 1024 are all
  exact, so line 206 computes the integer nearest to \<open>100 * raw / 1024\<close>.
\<close>

lemma scaleProbe_exact:
  assumes "0 \<le> raw" "raw \<le> 1023"
  shows "scaleProbe raw = (200 * raw + 1024) div 2048"
proof -
  have a: "float_of_int raw = of_int raw"
    using assms by (simp add: float_of_int_def fl_of_int)
  have b: "fmul 100 (of_int raw) = of_int (100 * raw)"
    using assms fl_of_int[of "100 * raw"] by (simp add: fmul_def)
  have c: "fdiv (of_int (100 * raw)) 1024 = of_int (100 * raw) / 1024"
    using assms fl_exact[of "100 * raw" "-10"] by (simp add: fdiv_def power_int_minus_divide)
  have nonneg: "(0::rat) \<le> of_int (100 * raw) / 1024" using assms by simp
  have "(of_int (100 * raw) / 1024 + 1 / 2 :: rat) = of_int (200 * raw + 1024) / of_int 2048"
    by simp
  then have fl: "\<lfloor>of_int (100 * raw) / 1024 + 1 / 2 :: rat\<rfloor> = (200 * raw + 1024) div 2048"
    by (simp only: floor_divide_of_int_eq)
  have "0 \<le> (200 * raw + 1024) div 2048" using assms by simp
  then show ?thesis
    unfolding scaleProbe_def a b c using nonneg fl
    by (simp add: c_round_def c_trunc_def)
qed

lemma scaleProbe_512: "scaleProbe 512 = 50"
  by (simp add: scaleProbe_exact)

subsection \<open>What each function leaves unchanged\<close>

lemma receive_frame:
  "lastProbeValue (receive m s) = lastProbeValue s"
  "cycleCpt (receive m s) = cycleCpt s"
  "batteryLowCpt (receive m s) = batteryLowCpt s"
  "cycleCptReset (receive m s) = cycleCptReset s"
  "adcReads (receive m s) = adcReads s"
  by (simp_all add: receive_def)

lemma receive_flag:
  "probeValueReceived (receive m s) = (probeValueReceived s \<or> (sensor m = CHILD_VALUE_ID \<and> isAck m))"
  by (auto simp: receive_def)

lemma wait_frame:
  "lastProbeValue (wait inbox s) = lastProbeValue s"
  "cycleCpt (wait inbox s) = cycleCpt s"
  "batteryLowCpt (wait inbox s) = batteryLowCpt s"
  "cycleCptReset (wait inbox s) = cycleCptReset s"
  "adcReads (wait inbox s) = adcReads s"
  by (induction inbox arbitrary: s; simp add: wait_def receive_frame)+

lemma wait_flag:
  "probeValueReceived (wait inbox s) =
     (probeValueReceived s \<or> (\<exists>m \<in> set inbox. sensor m = CHILD_VALUE_ID \<and> isAck m))"
  by (induction inbox arbitrary: s) (auto simp: wait_def receive_flag)

lemma processMoisture_eq:
  "processMoisture adc inbox s =
     (if scaleProbe (adc (adcReads s)) \<noteq> lastProbeValue s
         \<or> cycleCpt s = FORCE_SEND_AFTER_N_CYCLE \<or> \<not> probeValueReceived s
      then (True,
            [Delay 1000, Send CHILD_VALUE_ID (scaleProbe (adc (adcReads s))) True, Wait 1000],
            wait inbox (s\<lparr>adcReads := adcReads s + 1,
                           lastProbeValue := scaleProbe (adc (adcReads s)),
                           cycleCpt := 0, probeValueReceived := False\<rparr>))
      else (False, [Delay 1000], s\<lparr>adcReads := adcReads s + 1, cycleCpt := cycleCpt s + 1\<rparr>))"
  by (simp add: processMoisture_def sendProbeValue_def Let_def)

lemma processBattery_eq:
  "processBattery b al s =
     (if b < 10 \<and> 3 \<le> batteryLowCpt s + 1
      then ((if al then [SendBatteryLevel (uint8_of_float b)] else [])
              @ [SendBatteryLevel 0, SleepInterrupt 1 0],
            s\<lparr>batteryLowCpt := 0\<rparr>)
      else (if al then [SendBatteryLevel (uint8_of_float b)] else [],
            s\<lparr>batteryLowCpt := (if b < 10 then batteryLowCpt s + 1 else 0)\<rparr>))"
  by (simp add: processBattery_def countBatteryLow_def batteryLowConfirmed_def Let_def
      BATTERY_LOW_LIMIT_def SEND_BATTERY_LOW_AFTER_N_CYCLE_def)

lemma processReset_eq:
  "processReset s =
     (if 36 \<le> cycleCptReset s + 1 then Restart [Jmp0] (s\<lparr>cycleCptReset := 0\<rparr>)
      else Running [] (s\<lparr>cycleCptReset := cycleCptReset s + 1\<rparr>))"
  by (simp add: processReset_def restart_def doRestart_def Let_def RESET_AFTER_N_CYCLE_def)

lemma processBattery_frame:
  "lastProbeValue (snd (processBattery b a s)) = lastProbeValue s"
  "cycleCpt (snd (processBattery b a s)) = cycleCpt s"
  "cycleCptReset (snd (processBattery b a s)) = cycleCptReset s"
  "probeValueReceived (snd (processBattery b a s)) = probeValueReceived s"
  "adcReads (snd (processBattery b a s)) = adcReads s"
  by (simp_all add: processBattery_def countBatteryLow_def Let_def)

lemma doRestart_frame:
  "lastProbeValue (node_of (doRestart sw s)) = lastProbeValue s"
  "cycleCpt (node_of (doRestart sw s)) = cycleCpt s"
  "batteryLowCpt (node_of (doRestart sw s)) = batteryLowCpt s"
  "probeValueReceived (node_of (doRestart sw s)) = probeValueReceived s"
  "adcReads (node_of (doRestart sw s)) = adcReads s"
  by (simp_all add: doRestart_def Let_def)

lemma processReset_frame:
  "lastProbeValue (node_of (processReset s)) = lastProbeValue s"
  "cycleCpt (node_of (processReset s)) = cycleCpt s"
  "batteryLowCpt (node_of (processReset s)) = batteryLowCpt s"
  "probeValueReceived (node_of (processReset s)) = probeValueReceived s"
  "adcReads (node_of (processReset s)) = adcReads s"
  by (simp_all add: processReset_def restart_def doRestart_frame Let_def)

lemma processMoisture_batteryLowCpt:
  "batteryLowCpt (snd (snd (processMoisture adc inbox s))) = batteryLowCpt s"
  by (simp add: processMoisture_eq wait_frame)

lemma processMoisture_cycleCptReset:
  "cycleCptReset (snd (snd (processMoisture adc inbox s))) = cycleCptReset s"
  by (simp add: processMoisture_eq wait_frame)

lemma boot_cycleCpt: "cycleCpt (boot k) = FORCE_SEND_AFTER_N_CYCLE"
  by (simp add: boot_def setup_node_def)

lemma boot_fields:
  "batteryLowCpt (boot k) = 0" "cycleCptReset (boot k) = 0" "lastProbeValue (boot k) = 0"
  "probeValueReceived (boot k)" "adcReads (boot k) = k"
  by (simp_all add: boot_def setup_node_def power_on_def)

subsection \<open>One call of \<open>loop\<close> in terms of its three steps\<close>

lemma loop_node_of:
  "node_of (loop adc b inbox s) =
     node_of (processReset (snd (processBattery b (fst (processMoisture adc inbox s))
                                   (snd (snd (processMoisture adc inbox s))))))"
  by (simp add: loop_def split: prod.splits outcome.splits)

lemma loop_actions:
  "actions (loop adc b inbox s) =
     fst (snd (processMoisture adc inbox s))
     @ fst (processBattery b (fst (processMoisture adc inbox s))
              (snd (snd (processMoisture adc inbox s))))
     @ actions (processReset (snd (processBattery b (fst (processMoisture adc inbox s))
                                   (snd (snd (processMoisture adc inbox s))))))
     @ (if is_Restart (loop adc b inbox s) then [] else [Sleep CYCLE_DURATION])"
  by (simp add: loop_def split: prod.splits outcome.splits)

lemma loop_is_Restart_processReset:
  "is_Restart (loop adc b inbox s) =
     is_Restart (processReset (snd (processBattery b (fst (processMoisture adc inbox s))
                                      (snd (snd (processMoisture adc inbox s))))))"
  by (simp add: loop_def split: prod.splits outcome.splits)

lemma loop_cycleCpt:
  "cycleCpt (node_of (loop adc b inbox s)) = cycleCpt (snd (snd (processMoisture adc inbox s)))"
  by (simp only: loop_node_of processReset_frame processBattery_frame)

lemma loop_lastProbeValue:
  "lastProbeValue (node_of (loop adc b inbox s)) =
     lastProbeValue (snd (snd (processMoisture adc inbox s)))"
  by (simp only: loop_node_of processReset_frame processBattery_frame)

lemma loop_probeValueReceived:
  "probeValueReceived (node_of (loop adc b inbox s)) =
     probeValueReceived (snd (snd (processMoisture adc inbox s)))"
  by (simp only: loop_node_of processReset_frame processBattery_frame)

lemma loop_adcReads:
  "adcReads (node_of (loop adc b inbox s)) = adcReads s + 1"
  by (simp add: loop_node_of processReset_frame processBattery_frame processMoisture_eq wait_frame)

subsection \<open>Which actions each step can emit\<close>

lemma processBattery_no_Send: "Send c v a \<notin> set (fst (processBattery b al s))"
  by (simp add: processBattery_def Let_def)

lemma processReset_no_Send: "Send c v a \<notin> set (actions (processReset s))"
  by (simp add: processReset_def restart_def doRestart_def Let_def)

lemma processMoisture_Send_iff:
  "Send c v a \<in> set (fst (snd (processMoisture adc inbox s))) \<longleftrightarrow>
     fst (processMoisture adc inbox s)
     \<and> c = CHILD_VALUE_ID \<and> v = scaleProbe (adc (adcReads s)) \<and> a"
  by (auto simp: processMoisture_eq)

lemma loop_Send_iff:
  "Send c v a \<in> set (actions (loop adc b inbox s)) \<longleftrightarrow>
     fst (processMoisture adc inbox s)
     \<and> c = CHILD_VALUE_ID \<and> v = scaleProbe (adc (adcReads s)) \<and> a"
  by (simp add: loop_actions processBattery_no_Send processReset_no_Send processMoisture_Send_iff)

lemma countBatteryLow_cpt:
  "batteryLowCpt (countBatteryLow b s) = (if b < 10 then batteryLowCpt s + 1 else 0)"
  by (simp add: countBatteryLow_def BATTERY_LOW_LIMIT_def)

lemma processBattery_fires_iff:
  "SleepInterrupt i ms \<in> set (fst (processBattery b al s)) \<longleftrightarrow>
     i = 1 \<and> ms = 0 \<and> b < 10 \<and> 3 \<le> batteryLowCpt s + 1"
  by (auto simp: processBattery_eq)

lemma processMoisture_no_SleepInterrupt:
  "SleepInterrupt i ms \<notin> set (fst (snd (processMoisture adc inbox s)))"
  by (simp add: processMoisture_eq)

lemma processReset_no_SleepInterrupt: "SleepInterrupt i ms \<notin> set (actions (processReset s))"
  by (simp add: processReset_def restart_def doRestart_def Let_def)

lemma loop_SleepInterrupt_iff:
  "SleepInterrupt i ms \<in> set (actions (loop adc b inbox s)) \<longleftrightarrow>
     i = 1 \<and> ms = 0 \<and> b < 10 \<and> 3 \<le> batteryLowCpt s + 1"
  by (simp add: loop_actions processMoisture_no_SleepInterrupt processReset_no_SleepInterrupt
      processBattery_fires_iff processMoisture_batteryLowCpt)

lemma processReset_is_Restart: "is_Restart (processReset s) \<longleftrightarrow> 36 \<le> cycleCptReset s + 1"
  by (simp add: processReset_eq)

lemma loop_is_Restart:
  "is_Restart (loop adc b inbox s) \<longleftrightarrow> 36 \<le> cycleCptReset s + 1"
  by (simp only: loop_is_Restart_processReset processReset_is_Restart processBattery_frame
      processMoisture_cycleCptReset)

lemma is_Running_iff: "is_Running x \<longleftrightarrow> \<not> is_Restart x"
  by (cases x) simp_all

lemma loop_is_Running:
  "is_Running (loop adc b inbox s) \<longleftrightarrow> \<not> 36 \<le> cycleCptReset s + 1"
  by (simp only: is_Running_iff loop_is_Restart)

lemma processReset_cycleCptReset:
  "cycleCptReset (node_of (processReset s)) =
     (if 36 \<le> cycleCptReset s + 1 then 0 else cycleCptReset s + 1)"
  by (simp add: processReset_eq)

lemma loop_cycleCptReset:
  "cycleCptReset (node_of (loop adc b inbox s)) =
     (if 36 \<le> cycleCptReset s + 1 then 0 else cycleCptReset s + 1)"
  by (simp only: loop_node_of processReset_cycleCptReset processBattery_frame
      processMoisture_cycleCptReset)

lemma processMoisture_no_Jmp0: "Jmp0 \<notin> set (fst (snd (processMoisture adc inbox s)))"
  by (simp add: processMoisture_eq)

lemma processBattery_no_Jmp0: "Jmp0 \<notin> set (fst (processBattery b al s))"
  by (simp add: processBattery_eq)

lemma processReset_Jmp0_iff:
  "Jmp0 \<in> set (actions (processReset s)) \<longleftrightarrow> 36 \<le> cycleCptReset s + 1"
  by (simp add: processReset_eq)

lemma loop_Jmp0_iff:
  "Jmp0 \<in> set (actions (loop adc b inbox s)) \<longleftrightarrow> 36 \<le> cycleCptReset s + 1"
  by (simp add: loop_actions processMoisture_no_Jmp0 processBattery_no_Jmp0
      processReset_Jmp0_iff processBattery_frame processMoisture_cycleCptReset)

subsection \<open>Arithmetic of the 16-bit counters\<close>

lemma word16_succ_le3: "c \<le> (3 :: 16 word) \<Longrightarrow> c \<noteq> 3 \<Longrightarrow> c + 1 \<le> 3"
  by (auto simp add: word_le_nat_alt unat_word_ariths word_unat_eq_iff)

lemma word16_succ_unat: "c \<le> (3 :: 16 word) \<Longrightarrow> unat (c + 1) = unat c + 1"
  by (simp add: word_le_nat_alt unat_word_ariths)

lemma word16_unat_eq2: "(unat (c :: 16 word) = 2) = (c = 2)"
  by (simp add: word_unat_eq_iff)

lemma word16_lt3_succ:
  "c < (3 :: 16 word) \<Longrightarrow> unat (c + 1) = unat c + 1"
  "c < (3 :: 16 word) \<Longrightarrow> (3 \<le> c + 1) = (c = 2)"
  "c < (3 :: 16 word) \<Longrightarrow> c \<noteq> 2 \<Longrightarrow> c + 1 < 3"
  by (auto simp add: word_less_nat_alt word_le_nat_alt unat_word_ariths
      word16_unat_eq2[symmetric])

lemma word16_not_3_le_1: "\<not> (3 :: 16 word) \<le> 1"
  by (simp add: word_le_nat_alt)

lemma word16_lt36_succ:
  "c < (36 :: 16 word) \<Longrightarrow> unat (c + 1) = unat c + 1"
  "c < (36 :: 16 word) \<Longrightarrow> (36 \<le> c + 1) = (unat c + 1 = 36)"
  by (auto simp add: word_less_nat_alt word_le_nat_alt unat_word_ariths)

lemma word16_not_36_le_1: "\<not> (36 :: 16 word) \<le> 1"
  by (simp add: word_le_nat_alt)

subsection \<open>Invariants of runs\<close>

text \<open>
  A property that holds after every boot and is kept by \<open>receive\<close> and by every call of
  \<open>loop\<close> that returns holds in every state a run reaches.
\<close>

lemma run_invariant:
  assumes "P s"
    and "\<And>s m. P s \<Longrightarrow> P (receive m s)"
    and "\<And>s b inbox. P s \<Longrightarrow> is_Running (loop adc b inbox s) \<Longrightarrow> P (node_of (loop adc b inbox s))"
    and "\<And>k. P (boot k)"
  shows "P (run adc es s)"
  using assms(1)
proof (induction es arbitrary: s)
  case Nil
  then show ?case by simp
next
  case (Cons e es)
  show ?case
  proof (cases e)
    case (Receive m)
    then show ?thesis using Cons assms(2) by simp
  next
    case (Cycle b inbox)
    show ?thesis
    proof (cases "loop adc b inbox s")
      case (Running t s')
      then have "P s'" using assms(3)[OF Cons.prems, of b inbox] by simp
      then show ?thesis using Cycle Running Cons.IH by simp
    next
      case (Restart t s')
      then show ?thesis using Cycle Cons.IH[OF assms(4)] by simp
    qed
  qed
qed

lemma processMoisture_cycleCpt_le:
  "cycleCpt s \<le> FORCE_SEND_AFTER_N_CYCLE \<Longrightarrow>
   cycleCpt (snd (snd (processMoisture adc inbox s))) \<le> FORCE_SEND_AFTER_N_CYCLE"
  by (simp add: processMoisture_eq wait_frame FORCE_SEND_AFTER_N_CYCLE_def word16_succ_le3)

lemma loop_cycleCpt_le:
  "cycleCpt s \<le> FORCE_SEND_AFTER_N_CYCLE \<Longrightarrow>
   cycleCpt (node_of (loop adc b inbox s)) \<le> FORCE_SEND_AFTER_N_CYCLE"
  by (simp only: loop_node_of processReset_frame processBattery_frame processMoisture_cycleCpt_le)

lemma reachable_cycleCpt_le: "cycleCpt (run adc es (boot k)) \<le> FORCE_SEND_AFTER_N_CYCLE"
  by (rule run_invariant) (simp_all add: boot_cycleCpt receive_frame loop_cycleCpt_le)

lemma processBattery_cpt_lt: "batteryLowCpt (snd (processBattery b al s)) < 3"
  by (auto simp: processBattery_eq not_le)

lemma loop_batteryLowCpt_lt: "batteryLowCpt (node_of (loop adc b inbox s)) < 3"
  by (simp only: loop_node_of processReset_frame processBattery_cpt_lt)

lemma reachable_batteryLowCpt_lt: "batteryLowCpt (run adc es (boot k)) < 3"
  by (rule run_invariant) (simp_all add: boot_fields receive_frame loop_batteryLowCpt_lt)

lemma reachable_cycleCptReset_lt: "cycleCptReset (run adc es (boot k)) < 36"
  by (rule run_invariant)
    (simp_all add: boot_fields receive_frame loop_is_Running loop_cycleCptReset not_le)

lemma run_Receive_cycleCpt: "cycleCpt (run adc (map Receive ms) s) = cycleCpt s"
  by (induction ms arbitrary: s) (simp_all add: receive_frame)

lemma run_Receive_adcReads: "adcReads (run adc (map Receive ms) s) = adcReads s"
  by (induction ms arbitrary: s) (simp_all add: receive_frame)

lemma batteryRuns_spec:
  "batteryLowCpt s < 3 \<Longrightarrow>
   map (\<lambda>(c, f, c'). (unat c, f, unat c')) (batteryRuns rs s)
     = lowCounterSpec (unat (batteryLowCpt s)) (map fst rs)"
proof (induction rs arbitrary: s)
  case Nil
  then show ?case by simp
next
  case (Cons r rs)
  obtain b al where r: "r = (b, al)" by (cases r)
  let ?s' = "snd (processBattery b al s)"
  have lt: "batteryLowCpt ?s' < 3" by (rule processBattery_cpt_lt)
  note IH = Cons.IH[OF lt]
  show ?case
  proof (cases "b < 10")
    case False
    then show ?thesis using IH r
      by (simp add: processBattery_eq countBatteryLow_cpt split: prod.splits)
  next
    case True
    show ?thesis
    proof (cases "batteryLowCpt s = 2")
      case two: True
      then show ?thesis using IH r True
        by (simp add: processBattery_eq countBatteryLow_cpt split: prod.splits)
    next
      case False
      then show ?thesis using IH r True Cons.prems
        by (simp add: processBattery_eq countBatteryLow_cpt word16_lt3_succ word16_unat_eq2
            split: prod.splits)
    qed
  qed
qed

subsection \<open>The scaled reading\<close>

text \<open>
  Claim C2. For every raw analog sample from 0 to 1023 the percentage computed at line 206
  equals \<open>round (100 * raw / 1024)\<close> and lies between 0 and 100; the sample 512 gives 50.
\<close>

theorem scaleProbe_is_rounded_percentage:
  "(0 \<le> raw \<and> raw \<le> 1023 \<longrightarrow>
      scaleProbe raw = round (100 * real_of_int raw / 1024)
      \<and> 0 \<le> scaleProbe raw \<and> scaleProbe raw \<le> 100)
   \<and> scaleProbe 512 = 50"
proof -
  have "scaleProbe raw = round (100 * real_of_int raw / 1024)
        \<and> 0 \<le> scaleProbe raw \<and> scaleProbe raw \<le> 100"
    if r: "0 \<le> raw" "raw \<le> 1023"
  proof -
    have e: "scaleProbe raw = (200 * raw + 1024) div 2048"
      using r by (rule scaleProbe_exact)
    have "100 * real_of_int raw / 1024 + 1 / 2 = real_of_int (200 * raw + 1024) / real_of_int 2048"
      by simp
    then have "round (100 * real_of_int raw / 1024) = (200 * raw + 1024) div 2048"
      unfolding round_def by (simp only: floor_divide_of_int_eq)
    moreover have "0 \<le> (200 * raw + 1024) div 2048" using r by simp
    moreover have "(200 * raw + 1024) div 2048 \<le> 100" using r by simp
    ultimately show ?thesis using e by simp
  qed
  moreover have "scaleProbe 512 = 50" by (simp add: scaleProbe_exact)
  ultimately show ?thesis by blast
qed

theorem scaleProbe_is_rounded_percentage_witness:
  "(0::int) \<le> 1023 \<and> (1023::int) \<le> 1023
   \<and> scaleProbe 1023 = round (100 * real_of_int 1023 / 1024)
   \<and> scaleProbe 1023 = 100 \<and> scaleProbe 128 = 13 \<and> scaleProbe 0 = 0"
  using scaleProbe_is_rounded_percentage [of 1023] scaleProbe_is_rounded_percentage [of 128]
    scaleProbe_is_rounded_percentage [of 0]
  by (simp add: round_def)

subsection \<open>A first cycle, evaluated\<close>

text \<open>
  The first cycle after a boot with the sample 512, a state of charge of 50 and an
  acknowledgement that arrives in time.
\<close>

lemma example_loop:
  "loop (\<lambda>_. 512) 50 [\<lparr>sensor = 0, isAck = True\<rparr>] (boot 0) =
     Running [Delay 1000, Send CHILD_VALUE_ID 50 True, Wait 1000, SendBatteryLevel 50,
              Sleep CYCLE_DURATION]
       \<lparr>lastProbeValue = 50, cycleCpt = 0, batteryLowCpt = 0, cycleCptReset = 1,
        probeValueReceived = True, adcReads = 1\<rparr>"
  by (simp add: loop_def processMoisture_eq processBattery_eq processReset_eq boot_def
      setup_node_def power_on_def wait_def receive_def scaleProbe_512 uint8_of_float_def
      c_trunc_def FORCE_SEND_AFTER_N_CYCLE_def CHILD_VALUE_ID_def word16_not_36_le_1)

subsection \<open>The transmission policy\<close>

text \<open>
  Claim C1. In every duty cycle the moisture step sends a reading if and only if the scaled
  reading differs from \<open>lastProbeValue\<close>, or \<open>cycleCpt\<close> has reached the force-send threshold
  \<open>FORCE_SEND_AFTER_N_CYCLE = 3\<close>, or \<open>probeValueReceived\<close> is false; when none of the three
  holds nothing is sent and \<open>cycleCpt\<close> is incremented by one.

  The first three conjuncts hold in every state, with the equality test of line 215. The last
  one is about the states \<open>r\<close> that a run reaches from a boot: there the test is the same as
  \<open>FORCE_SEND_AFTER_N_CYCLE \<le> cycleCpt r\<close>, and the increment does not wrap around.
\<close>

theorem processMoisture_send_policy:
  "(fst (processMoisture adc inbox s) \<longleftrightarrow>
      (scaleProbe (adc (adcReads s)) \<noteq> lastProbeValue s
       \<or> cycleCpt s = FORCE_SEND_AFTER_N_CYCLE \<or> \<not> probeValueReceived s))
   \<and> ((\<exists>c v a. Send c v a \<in> set (actions (loop adc b inbox s))) \<longleftrightarrow>
      (scaleProbe (adc (adcReads s)) \<noteq> lastProbeValue s
       \<or> cycleCpt s = FORCE_SEND_AFTER_N_CYCLE \<or> \<not> probeValueReceived s))
   \<and> (\<not> (scaleProbe (adc (adcReads s)) \<noteq> lastProbeValue s
          \<or> cycleCpt s = FORCE_SEND_AFTER_N_CYCLE \<or> \<not> probeValueReceived s) \<longrightarrow>
        cycleCpt (snd (snd (processMoisture adc inbox s))) = cycleCpt s + 1
        \<and> cycleCpt (node_of (loop adc b inbox s)) = cycleCpt s + 1)
   \<and> (let r = run adc es (boot k)
       in ((\<exists>c v a. Send c v a \<in> set (actions (loop adc b inbox r))) \<longleftrightarrow>
             (scaleProbe (adc (adcReads r)) \<noteq> lastProbeValue r
              \<or> FORCE_SEND_AFTER_N_CYCLE \<le> cycleCpt r \<or> \<not> probeValueReceived r))
          \<and> (\<not> (\<exists>c v a. Send c v a \<in> set (actions (loop adc b inbox r))) \<longrightarrow>
               unat (cycleCpt (node_of (loop adc b inbox r))) = unat (cycleCpt r) + 1))"
proof -
  let ?cond = "\<lambda>s. scaleProbe (adc (adcReads s)) \<noteq> lastProbeValue s
       \<or> cycleCpt s = FORCE_SEND_AFTER_N_CYCLE \<or> \<not> probeValueReceived s"
  have ret: "fst (processMoisture adc inbox s) \<longleftrightarrow> ?cond s" for s
    by (simp add: processMoisture_eq)
  have sent: "(\<exists>c v a. Send c v a \<in> set (actions (loop adc b inbox s))) \<longleftrightarrow> ?cond s" for s
    by (auto simp: loop_Send_iff ret)
  have inc: "cycleCpt (snd (snd (processMoisture adc inbox s))) = cycleCpt s + 1" if "\<not> ?cond s" for s
    using that by (simp add: processMoisture_eq)
  define r where "r = run adc es (boot k)"
  have le: "cycleCpt r \<le> 3"
    using reachable_cycleCpt_le[of adc es k] by (simp add: r_def FORCE_SEND_AFTER_N_CYCLE_def)
  have ge: "(cycleCpt r = FORCE_SEND_AFTER_N_CYCLE) = (FORCE_SEND_AFTER_N_CYCLE \<le> cycleCpt r)"
    using le by (auto simp: FORCE_SEND_AFTER_N_CYCLE_def)
  have r1: "(\<exists>c v a. Send c v a \<in> set (actions (loop adc b inbox r))) \<longleftrightarrow>
             (scaleProbe (adc (adcReads r)) \<noteq> lastProbeValue r
              \<or> FORCE_SEND_AFTER_N_CYCLE \<le> cycleCpt r \<or> \<not> probeValueReceived r)"
    by (simp only: sent ge)
  have r2: "unat (cycleCpt (node_of (loop adc b inbox r))) = unat (cycleCpt r) + 1"
    if "\<not> (\<exists>c v a. Send c v a \<in> set (actions (loop adc b inbox r)))"
  proof -
    from that have nc: "\<not> ?cond r" using sent[of r] by blast
    have "cycleCpt (node_of (loop adc b inbox r)) = cycleCpt r + 1"
      unfolding loop_cycleCpt by (rule inc[OF nc])
    then show ?thesis using le by (simp add: word16_succ_unat)
  qed
  show ?thesis
    unfolding Let_def r_def[symmetric]
    using ret[of s] sent[of s] inc[of s] r1 r2 by (simp only: loop_cycleCpt) blast
qed

theorem processMoisture_send_policy_witness:
  "\<not> fst (processMoisture (\<lambda>_. 512) []
       \<lparr>lastProbeValue = 50, cycleCpt = 1, batteryLowCpt = 0, cycleCptReset = 5,
      probeValueReceived = True, adcReads = 0\<rparr>)
   \<and> cycleCpt (snd (snd (processMoisture (\<lambda>_. 512) []
       \<lparr>lastProbeValue = 50, cycleCpt = 1, batteryLowCpt = 0, cycleCptReset = 5,
      probeValueReceived = True, adcReads = 0\<rparr>))) = 2
   \<and> \<not> (\<exists>c v a. Send c v a \<in> set (actions (loop (\<lambda>_. 512) 50 []
       \<lparr>lastProbeValue = 50, cycleCpt = 1, batteryLowCpt = 0, cycleCptReset = 5,
      probeValueReceived = True, adcReads = 0\<rparr>)))
   \<and> unat (cycleCpt (node_of (loop (\<lambda>_. 512) 50 []
       (run (\<lambda>_. 512) [Cycle 50 [\<lparr>sensor = 0, isAck = True\<rparr>]] (boot 0))))) = 1"
  using processMoisture_send_policy [where adc = "(\<lambda>_. 512)" and inbox = "[]" and b = 50
      and s = "\<lparr>lastProbeValue = 50, cycleCpt = 1, batteryLowCpt = 0, cycleCptReset = 5,
      probeValueReceived = True, adcReads = 0\<rparr>"
      and es = "[Cycle 50 [\<lparr>sensor = 0, isAck = True\<rparr>]]" and k = 0]
  by (simp add: example_loop scaleProbe_512 FORCE_SEND_AFTER_N_CYCLE_def Let_def)

subsection \<open>Send and acknowledgement\<close>

text \<open>
  Claim C3. Immediately after a moisture send \<open>cycleCpt\<close> is 0, \<open>probeValueReceived\<close> is
  false and \<open>lastProbeValue\<close> is the value just sent; \<open>probeValueReceived\<close> goes from false to
  true only when \<open>receive\<close> sees an acknowledgement on the child \<open>CHILD_VALUE_ID\<close>.

  The first conjunct is the state at the call of \<open>send\<close>. When \<open>processMoisture\<close> returns after
  a send, the flag is true exactly if such an acknowledgement arrived during the wait of line
  229. No other function of the sketch sets the flag. A restart starts a new run of the
  program, in which the variable has its initial value again.
\<close>

theorem probeValueReceived_protocol:
  "(case sendProbeValue v s of (t, s') \<Rightarrow>
      t = [Send CHILD_VALUE_ID v True] \<and> cycleCpt s' = 0 \<and> \<not> probeValueReceived s'
      \<and> lastProbeValue s' = v)
   \<and> (fst (processMoisture adc inbox s) \<longrightarrow>
        cycleCpt (snd (snd (processMoisture adc inbox s))) = 0
        \<and> lastProbeValue (snd (snd (processMoisture adc inbox s))) = scaleProbe (adc (adcReads s))
        \<and> (probeValueReceived (snd (snd (processMoisture adc inbox s))) \<longleftrightarrow>
             (\<exists>m \<in> set inbox. sensor m = CHILD_VALUE_ID \<and> isAck m)))
   \<and> (\<not> fst (processMoisture adc inbox s) \<longrightarrow>
        probeValueReceived (snd (snd (processMoisture adc inbox s))) = probeValueReceived s)
   \<and> (probeValueReceived (receive m s) \<longleftrightarrow>
        probeValueReceived s \<or> (sensor m = CHILD_VALUE_ID \<and> isAck m))
   \<and> probeValueReceived (snd (processBattery b al s)) = probeValueReceived s
   \<and> probeValueReceived (node_of (processReset s)) = probeValueReceived s
   \<and> probeValueReceived (node_of (doRestart sw s)) = probeValueReceived s
   \<and> probeValueReceived (setup_node s) = probeValueReceived s
   \<and> (\<not> probeValueReceived s \<and> probeValueReceived (node_of (loop adc b inbox s)) \<longrightarrow>
        (\<exists>m \<in> set inbox. sensor m = CHILD_VALUE_ID \<and> isAck m))"
proof -
  have a: "case sendProbeValue v s of (t, s') \<Rightarrow>
      t = [Send CHILD_VALUE_ID v True] \<and> cycleCpt s' = 0 \<and> \<not> probeValueReceived s'
      \<and> lastProbeValue s' = v"
    by (simp add: sendProbeValue_def)
  have b: "cycleCpt (snd (snd (processMoisture adc inbox s))) = 0
        \<and> lastProbeValue (snd (snd (processMoisture adc inbox s))) = scaleProbe (adc (adcReads s))
        \<and> (probeValueReceived (snd (snd (processMoisture adc inbox s))) \<longleftrightarrow>
             (\<exists>m \<in> set inbox. sensor m = CHILD_VALUE_ID \<and> isAck m))"
    if "fst (processMoisture adc inbox s)"
    using that by (auto simp: processMoisture_eq wait_frame wait_flag split: if_splits)
  have c: "probeValueReceived (snd (snd (processMoisture adc inbox s))) = probeValueReceived s"
    if "\<not> fst (processMoisture adc inbox s)"
    using that by (auto simp: processMoisture_eq split: if_splits)
  have d: "probeValueReceived (setup_node s) = probeValueReceived s"
    by (simp add: setup_node_def)
  have e: "\<exists>m \<in> set inbox. sensor m = CHILD_VALUE_ID \<and> isAck m"
    if "\<not> probeValueReceived s" "probeValueReceived (node_of (loop adc b inbox s))"
  proof -
    from that(1) have f: "fst (processMoisture adc inbox s)" by (simp add: processMoisture_eq)
    from that(2) have "probeValueReceived (snd (snd (processMoisture adc inbox s)))"
      by (simp only: loop_probeValueReceived)
    with b[OF f] show ?thesis by blast
  qed
  show ?thesis
    using a b c d e
    by (simp only: receive_flag processBattery_frame processReset_frame doRestart_frame) blast
qed

theorem probeValueReceived_protocol_witness:
  "fst (processMoisture (\<lambda>_. 512) [\<lparr>sensor = 0, isAck = True\<rparr>] (boot 0))
   \<and> probeValueReceived (snd (snd (processMoisture (\<lambda>_. 512) [\<lparr>sensor = 0, isAck = True\<rparr>] (boot 0))))
   \<and> \<not> probeValueReceived (snd (snd (processMoisture (\<lambda>_. 512) [] (boot 0))))
   \<and> \<not> probeValueReceived
         (snd (snd (processMoisture (\<lambda>_. 512) [\<lparr>sensor = 1, isAck = True\<rparr>, \<lparr>sensor = 0, isAck = False\<rparr>]
            (boot 0))))
   \<and> cycleCpt (snd (snd (processMoisture (\<lambda>_. 512) [\<lparr>sensor = 0, isAck = True\<rparr>] (boot 0)))) = 0
   \<and> lastProbeValue (snd (snd (processMoisture (\<lambda>_. 512) [\<lparr>sensor = 0, isAck = True\<rparr>] (boot 0)))) = 50"
  using probeValueReceived_protocol [where adc = "(\<lambda>_. 512)" and inbox = "[\<lparr>sensor = 0, isAck = True\<rparr>]" and s = "boot 0"
      and v = 50 and m = "\<lparr>sensor = 0, isAck = True\<rparr>" and b = 50 and al = True and sw = True]
    probeValueReceived_protocol [where adc = "(\<lambda>_. 512)" and inbox = "[]" and s = "boot 0"
      and v = 50 and m = "\<lparr>sensor = 0, isAck = True\<rparr>" and b = 50 and al = True and sw = True]
    probeValueReceived_protocol [where adc = "(\<lambda>_. 512)" and s = "boot 0"
      and inbox = "[\<lparr>sensor = 1, isAck = True\<rparr>, \<lparr>sensor = 0, isAck = False\<rparr>]"
      and v = 50 and m = "\<lparr>sensor = 0, isAck = True\<rparr>" and b = 50 and al = True and sw = True]
  by (simp add: processMoisture_eq boot_cycleCpt boot_fields scaleProbe_512 CHILD_VALUE_ID_def)

subsection \<open>The low-battery counter\<close>

text \<open>
  Claim C4. In the battery step \<open>batteryLowCpt\<close> is incremented when the state of charge is
  strictly below 10 and is reset to 0 by any reading at or above 10; the terminal low-power
  branch (battery level 0 is reported and the node sleeps until an external interrupt) is
  taken exactly when the counter reaches 3 consecutive low readings. For the readings
  9, 9, 8, 11 the counter takes the values 1, 2, 3 (branch taken, reset to 0), 0.

  In every state \<open>r\<close> that a run reaches the counter is below 3, so the branch is taken exactly
  when the third consecutive low reading is counted. Successive calls agree with the
  specification's counter on unbounded numbers.
\<close>

theorem batteryLowCpt_counts_consecutive_low:
  "(b < BATTERY_LOW_LIMIT \<longrightarrow> batteryLowCpt (countBatteryLow b s) = batteryLowCpt s + 1)
   \<and> (BATTERY_LOW_LIMIT \<le> b \<longrightarrow>
        batteryLowCpt (countBatteryLow b s) = 0
        \<and> batteryLowCpt (snd (processBattery b al s)) = 0
        \<and> SleepInterrupt 1 0 \<notin> set (fst (processBattery b al s)))
   \<and> (SleepInterrupt 1 0 \<in> set (fst (processBattery b al s)) \<longleftrightarrow>
        SEND_BATTERY_LOW_AFTER_N_CYCLE \<le> batteryLowCpt (countBatteryLow b s))
   \<and> (let r = run adc es (boot k)
       in batteryLowCpt r < SEND_BATTERY_LOW_AFTER_N_CYCLE
          \<and> (SleepInterrupt 1 0 \<in> set (actions (loop adc b inbox r)) \<longleftrightarrow>
               b < BATTERY_LOW_LIMIT \<and> unat (batteryLowCpt r) + 1 = 3))
   \<and> (batteryLowCpt s < SEND_BATTERY_LOW_AFTER_N_CYCLE \<longrightarrow>
        map (\<lambda>(c, f, c'). (unat c, f, unat c')) (batteryRuns rs s)
          = lowCounterSpec (unat (batteryLowCpt s)) (map fst rs))
   \<and> (batteryLowCpt s = 0 \<longrightarrow>
        batteryRuns [(9, a1), (9, a2), (8, a3), (11, a4)] s
          = [(1, False, 1), (2, False, 2), (3, True, 0), (0, False, 0)])"
proof -
  have a: "batteryLowCpt (countBatteryLow b s) = batteryLowCpt s + 1" if "b < BATTERY_LOW_LIMIT"
    using that by (simp add: countBatteryLow_def)
  have b: "batteryLowCpt (countBatteryLow b s) = 0
        \<and> batteryLowCpt (snd (processBattery b al s)) = 0
        \<and> SleepInterrupt 1 0 \<notin> set (fst (processBattery b al s))"
    if "BATTERY_LOW_LIMIT \<le> b"
    using that by (simp add: countBatteryLow_cpt processBattery_eq BATTERY_LOW_LIMIT_def)
  have c: "SleepInterrupt 1 0 \<in> set (fst (processBattery b al s)) \<longleftrightarrow>
        SEND_BATTERY_LOW_AFTER_N_CYCLE \<le> batteryLowCpt (countBatteryLow b s)"
    by (simp add: processBattery_fires_iff countBatteryLow_cpt SEND_BATTERY_LOW_AFTER_N_CYCLE_def)
  define r where "r = run adc es (boot k)"
  have lt: "batteryLowCpt r < 3" unfolding r_def by (rule reachable_batteryLowCpt_lt)
  have d: "SleepInterrupt 1 0 \<in> set (actions (loop adc b inbox r)) \<longleftrightarrow>
               b < BATTERY_LOW_LIMIT \<and> unat (batteryLowCpt r) + 1 = 3"
    using lt
    by (simp add: loop_SleepInterrupt_iff BATTERY_LOW_LIMIT_def word16_lt3_succ word16_unat_eq2)
  have e: "map (\<lambda>(c, f, c'). (unat c, f, unat c')) (batteryRuns rs s)
          = lowCounterSpec (unat (batteryLowCpt s)) (map fst rs)"
    if "batteryLowCpt s < SEND_BATTERY_LOW_AFTER_N_CYCLE"
    using that by (simp add: SEND_BATTERY_LOW_AFTER_N_CYCLE_def batteryRuns_spec)
  have f: "batteryRuns [(9, a1), (9, a2), (8, a3), (11, a4)] s
          = [(1, False, 1), (2, False, 2), (3, True, 0), (0, False, 0)]"
    if "batteryLowCpt s = 0"
    using that by (simp add: processBattery_eq countBatteryLow_cpt word16_not_3_le_1)
  show ?thesis
    unfolding Let_def r_def[symmetric]
    using a b c d e f lt by (simp add: SEND_BATTERY_LOW_AFTER_N_CYCLE_def)
qed

theorem batteryLowCpt_counts_consecutive_low_witness:
  "batteryLowCpt (countBatteryLow 9 power_on) = 1
   \<and> batteryLowCpt (countBatteryLow 11 (power_on\<lparr>batteryLowCpt := 2\<rparr>)) = 0
   \<and> batteryRuns [(9, False), (9, False), (8, False), (11, True)] power_on
       = [(1, False, 1), (2, False, 2), (3, True, 0), (0, False, 0)]
   \<and> lowCounterSpec 0 [9, 9, 8, 11]
       = [(1, False, 1), (2, False, 2), (3, True, 0), (0, False, 0)]
   \<and> SleepInterrupt 1 0 \<notin> set (actions (loop (\<lambda>_. 512) 9 [] (boot 0)))"
proof -
  note low = batteryLowCpt_counts_consecutive_low [where b = 9 and s = power_on and al = False
      and rs = "[(9, False), (9, False), (8, False), (11, True)]"
      and adc = "\<lambda>_. 512" and es = "[]" and k = 0 and inbox = "[]"
      and ?a1.0 = False and ?a2.0 = False and ?a3.0 = False and ?a4.0 = True]
  note high = batteryLowCpt_counts_consecutive_low [where b = 11 and al = False
      and s = "power_on\<lparr>batteryLowCpt := 2\<rparr>"
      and rs = "[]" and adc = "\<lambda>_. 512" and es = "[]" and k = 0 and inbox = "[]"
      and ?a1.0 = False and ?a2.0 = False and ?a3.0 = False and ?a4.0 = True]
  have lim: "(9::rat) < BATTERY_LOW_LIMIT" "BATTERY_LOW_LIMIT \<le> (11::rat)"
    by (simp_all add: BATTERY_LOW_LIMIT_def)
  have z: "batteryLowCpt power_on = 0" by (simp add: power_on_def)
  have lt: "batteryLowCpt power_on < SEND_BATTERY_LOW_AFTER_N_CYCLE"
    by (simp add: power_on_def SEND_BATTERY_LOW_AFTER_N_CYCLE_def)
  from low lim(1) have "batteryLowCpt (countBatteryLow 9 power_on) = batteryLowCpt power_on + 1"
    by blast
  then have w1: "batteryLowCpt (countBatteryLow 9 power_on) = 1" by (simp add: z)
  from high lim(2) have w2: "batteryLowCpt (countBatteryLow 11 (power_on\<lparr>batteryLowCpt := 2\<rparr>)) = 0"
    by blast
  from low z have w3: "batteryRuns [(9, False), (9, False), (8, False), (11, True)] power_on
       = [(1, False, 1), (2, False, 2), (3, True, 0), (0, False, 0)]"
    by blast
  from low lt have "map (\<lambda>(c, f, c'). (unat c, f, unat c'))
          (batteryRuns [(9, False), (9, False), (8, False), (11, True)] power_on)
        = lowCounterSpec (unat (batteryLowCpt power_on))
            (map fst [(9, False), (9, False), (8, False), (11, True)])"
    by blast
  then have w4: "lowCounterSpec 0 [9, 9, 8, 11]
       = [(1, False, 1), (2, False, 2), (3, True, 0), (0, False, 0)]"
    unfolding w3 z by simp
  from low have "SleepInterrupt 1 0 \<in> set (actions (loop (\<lambda>_. 512) 9 [] (run (\<lambda>_. 512) [] (boot 0))))
      \<longleftrightarrow> 9 < BATTERY_LOW_LIMIT \<and> unat (batteryLowCpt (run (\<lambda>_. 512) [] (boot 0))) + 1 = 3"
    unfolding Let_def by blast
  then have w5: "SleepInterrupt 1 0 \<notin> set (actions (loop (\<lambda>_. 512) 9 [] (boot 0)))"
    by (simp add: boot_fields)
  from w1 w2 w3 w4 w5 show ?thesis by blast
qed

subsection \<open>The periodic restart\<close>

text \<open>
  Claim C5. The reset step increments \<open>cycleCptReset\<close> in every cycle; when the counter
  reaches 36 a restart is triggered, and \<open>cycleCptReset\<close> is 0 immediately after the restart
  has been initiated.
\<close>

theorem processReset_restarts_at_36:
  "processReset s =
     (if RESET_AFTER_N_CYCLE \<le> cycleCptReset s + 1
      then Restart [Jmp0] (s\<lparr>cycleCptReset := 0\<rparr>)
      else Running [] (s\<lparr>cycleCptReset := cycleCptReset s + 1\<rparr>))
   \<and> (cycleCptReset s + 1 = RESET_AFTER_N_CYCLE \<longrightarrow>
        is_Restart (processReset s) \<and> is_Restart (loop adc b inbox s))
   \<and> (is_Restart (loop adc b inbox s) \<longrightarrow>
        cycleCptReset (node_of (loop adc b inbox s)) = 0
        \<and> Jmp0 \<in> set (actions (loop adc b inbox s)))
   \<and> (is_Running (loop adc b inbox s) \<longrightarrow>
        cycleCptReset (node_of (loop adc b inbox s)) = cycleCptReset s + 1
        \<and> Jmp0 \<notin> set (actions (loop adc b inbox s)))
   \<and> cycleCptReset (node_of (doRestart sw s)) = 0
   \<and> restart s = Restart [Jmp0] (s\<lparr>cycleCptReset := 0\<rparr>)
   \<and> (let r = run adc es (boot k)
       in cycleCptReset r < RESET_AFTER_N_CYCLE
          \<and> (is_Restart (loop adc b inbox r) \<longleftrightarrow> unat (cycleCptReset r) + 1 = 36)
          \<and> (is_Running (loop adc b inbox r) \<longrightarrow>
               unat (cycleCptReset (node_of (loop adc b inbox r))) = unat (cycleCptReset r) + 1))
   \<and> cycleCptReset (boot k) = 0"
proof -
  have a: "processReset s =
     (if RESET_AFTER_N_CYCLE \<le> cycleCptReset s + 1
      then Restart [Jmp0] (s\<lparr>cycleCptReset := 0\<rparr>)
      else Running [] (s\<lparr>cycleCptReset := cycleCptReset s + 1\<rparr>))"
    by (simp add: processReset_eq RESET_AFTER_N_CYCLE_def)
  have b: "is_Restart (processReset s) \<and> is_Restart (loop adc b inbox s)"
    if "cycleCptReset s + 1 = RESET_AFTER_N_CYCLE"
    using that by (simp add: processReset_eq loop_is_Restart RESET_AFTER_N_CYCLE_def)
  have c: "cycleCptReset (node_of (loop adc b inbox s)) = 0
        \<and> Jmp0 \<in> set (actions (loop adc b inbox s))"
    if "is_Restart (loop adc b inbox s)"
    using that by (simp add: loop_is_Restart loop_cycleCptReset loop_Jmp0_iff)
  have d: "cycleCptReset (node_of (loop adc b inbox s)) = cycleCptReset s + 1
        \<and> Jmp0 \<notin> set (actions (loop adc b inbox s))"
    if "is_Running (loop adc b inbox s)"
    using that by (simp add: loop_is_Running loop_cycleCptReset loop_Jmp0_iff)
  have e: "cycleCptReset (node_of (doRestart sw s)) = 0"
    by (simp add: doRestart_def Let_def)
  have f: "restart s = Restart [Jmp0] (s\<lparr>cycleCptReset := 0\<rparr>)"
    by (simp add: restart_def doRestart_def Let_def)
  define r where "r = run adc es (boot k)"
  have lt: "cycleCptReset r < 36" unfolding r_def by (rule reachable_cycleCptReset_lt)
  have g: "is_Restart (loop adc b inbox r) \<longleftrightarrow> unat (cycleCptReset r) + 1 = 36"
    using lt by (simp only: loop_is_Restart word16_lt36_succ)
  have h: "unat (cycleCptReset (node_of (loop adc b inbox r))) = unat (cycleCptReset r) + 1"
    if "is_Running (loop adc b inbox r)"
    using that lt by (simp add: loop_is_Running loop_cycleCptReset word16_lt36_succ(1))
  have i: "cycleCptReset (boot k) = 0" by (simp add: boot_fields)
  have lt': "cycleCptReset r < RESET_AFTER_N_CYCLE" using lt by (simp add: RESET_AFTER_N_CYCLE_def)
  show ?thesis
    unfolding Let_def r_def[symmetric]
    using a b c d e f g h i lt' by blast
qed

theorem processReset_restarts_at_36_witness:
  "processReset
       \<lparr>lastProbeValue = 50, cycleCpt = 1, batteryLowCpt = 0, cycleCptReset = 35,
      probeValueReceived = True, adcReads = 0\<rparr>
     = Restart [Jmp0]
       (\<lparr>lastProbeValue = 50, cycleCpt = 1, batteryLowCpt = 0, cycleCptReset = 35,
      probeValueReceived = True, adcReads = 0\<rparr>\<lparr>cycleCptReset := 0\<rparr>)
   \<and> is_Restart (loop (\<lambda>_. 512) 50 []
       \<lparr>lastProbeValue = 50, cycleCpt = 1, batteryLowCpt = 0, cycleCptReset = 35,
      probeValueReceived = True, adcReads = 0\<rparr>)
   \<and> cycleCptReset (node_of (loop (\<lambda>_. 512) 50 []
       \<lparr>lastProbeValue = 50, cycleCpt = 1, batteryLowCpt = 0, cycleCptReset = 35,
      probeValueReceived = True, adcReads = 0\<rparr>)) = 0
   \<and> is_Running (loop (\<lambda>_. 512) 50 []
       \<lparr>lastProbeValue = 50, cycleCpt = 1, batteryLowCpt = 0, cycleCptReset = 5,
      probeValueReceived = True, adcReads = 0\<rparr>)
   \<and> cycleCptReset (node_of (loop (\<lambda>_. 512) 50 []
       \<lparr>lastProbeValue = 50, cycleCpt = 1, batteryLowCpt = 0, cycleCptReset = 5,
      probeValueReceived = True, adcReads = 0\<rparr>)) = 6"
  using processReset_restarts_at_36 [where adc = "(\<lambda>_. 512)" and inbox = "[]" and b = 50
      and sw = True and es = "[]" and k = 0
      and s = "\<lparr>lastProbeValue = 50, cycleCpt = 1, batteryLowCpt = 0, cycleCptReset = 35,
      probeValueReceived = True, adcReads = 0\<rparr>"]
    processReset_restarts_at_36 [where adc = "(\<lambda>_. 512)" and inbox = "[]" and b = 50
      and sw = True and es = "[]" and k = 0
      and s = "\<lparr>lastProbeValue = 50, cycleCpt = 1, batteryLowCpt = 0, cycleCptReset = 5,
      probeValueReceived = True, adcReads = 0\<rparr>"]
  by (simp add: RESET_AFTER_N_CYCLE_def loop_is_Running)

subsection \<open>The first cycle\<close>

text \<open>
  Claim C6. In the first duty cycle after power-on the moisture step always sends a reading,
  whatever \<open>lastProbeValue\<close> is, because \<open>setup\<close> sets \<open>cycleCpt\<close> to the force-send
  threshold.

  The state before \<open>setup\<close> is arbitrary in the first three conjuncts. The last one is the
  first call of \<open>loop\<close> after a boot, with any messages delivered before it.
\<close>

theorem first_cycle_sends:
  "fst (processMoisture adc inbox (setup_node s))
   \<and> Send CHILD_VALUE_ID (scaleProbe (adc (adcReads s))) True
       \<in> set (fst (snd (processMoisture adc inbox (setup_node s))))
   \<and> lastProbeValue (snd (snd (processMoisture adc inbox (setup_node s))))
       = scaleProbe (adc (adcReads s))
   \<and> Send CHILD_VALUE_ID (scaleProbe (adc k)) True
       \<in> set (actions (loop adc b inbox (run adc (map Receive ms) (boot k))))"
proof -
  have a: "fst (processMoisture adc inbox (setup_node s))"
    by (simp add: processMoisture_eq setup_node_def)
  have b: "fst (processMoisture adc inbox (run adc (map Receive ms) (boot k)))"
    by (simp add: processMoisture_eq run_Receive_cycleCpt boot_cycleCpt)
  have k: "adcReads (run adc (map Receive ms) (boot k)) = k"
    by (simp add: run_Receive_adcReads boot_def setup_node_def)
  have c: "lastProbeValue (snd (snd (processMoisture adc inbox (setup_node s))))
       = scaleProbe (adc (adcReads s))"
    by (simp add: processMoisture_eq setup_node_def wait_frame)
  have d: "adcReads (setup_node s) = adcReads s" by (simp add: setup_node_def)
  show ?thesis
    using a b c by (simp add: loop_Send_iff processMoisture_Send_iff k d)
qed

theorem first_cycle_sends_witness:
  "fst (processMoisture (\<lambda>_. 512) [] (setup_node (power_on\<lparr>lastProbeValue := 50\<rparr>)))
   \<and> Send CHILD_VALUE_ID 50 True
       \<in> set (fst (snd (processMoisture (\<lambda>_. 512) []
                 (setup_node (power_on\<lparr>lastProbeValue := 50\<rparr>)))))
   \<and> Send CHILD_VALUE_ID 50 True \<in> set (actions (loop (\<lambda>_. 512) 50 [] (boot 0)))"
  using first_cycle_sends [where adc = "(\<lambda>_. 512)" and inbox = "[]" and b = 50 and k = 0
      and s = "power_on\<lparr>lastProbeValue := 50\<rparr>" and ms = "[]"]
  by (simp add: scaleProbe_512)

subsection \<open>The last transmitted value\<close>

text \<open>
  Claim C7. \<open>lastProbeValue\<close> is modified only by the moisture step and only in cycles in
  which a reading is sent; in a cycle without a moisture send it is unchanged.

  For a cycle that ends in a restart the state compared is the one at the jump; the run of the
  program that follows starts from the initial values.
\<close>

theorem lastProbeValue_frame:
  "lastProbeValue (snd (snd (processMoisture adc inbox s)))
     = (if fst (processMoisture adc inbox s) then scaleProbe (adc (adcReads s))
        else lastProbeValue s)
   \<and> lastProbeValue (snd (processBattery b al s)) = lastProbeValue s
   \<and> lastProbeValue (node_of (processReset s)) = lastProbeValue s
   \<and> lastProbeValue (node_of (doRestart sw s)) = lastProbeValue s
   \<and> lastProbeValue (receive m s) = lastProbeValue s
   \<and> lastProbeValue (wait inbox s) = lastProbeValue s
   \<and> lastProbeValue (setup_node s) = lastProbeValue s
   \<and> (\<not> (\<exists>c v a. Send c v a \<in> set (actions (loop adc b inbox s))) \<longrightarrow>
        lastProbeValue (node_of (loop adc b inbox s)) = lastProbeValue s)
   \<and> (lastProbeValue (node_of (loop adc b inbox s)) \<noteq> lastProbeValue s \<longrightarrow>
        Send CHILD_VALUE_ID (lastProbeValue (node_of (loop adc b inbox s))) True
          \<in> set (actions (loop adc b inbox s)))"
proof -
  have a: "lastProbeValue (snd (snd (processMoisture adc inbox s)))
     = (if fst (processMoisture adc inbox s) then scaleProbe (adc (adcReads s))
        else lastProbeValue s)"
    by (simp add: processMoisture_eq wait_frame)
  have b: "lastProbeValue (setup_node s) = lastProbeValue s"
    by (simp add: setup_node_def)
  have c: "lastProbeValue (node_of (loop adc b inbox s)) = lastProbeValue s"
    if "\<not> (\<exists>c v a. Send c v a \<in> set (actions (loop adc b inbox s)))"
  proof -
    from that have "\<not> fst (processMoisture adc inbox s)" by (auto simp: loop_Send_iff)
    then show ?thesis using a by (simp add: loop_lastProbeValue)
  qed
  have d: "Send CHILD_VALUE_ID (lastProbeValue (node_of (loop adc b inbox s))) True
          \<in> set (actions (loop adc b inbox s))"
    if "lastProbeValue (node_of (loop adc b inbox s)) \<noteq> lastProbeValue s"
  proof -
    from that a have f: "fst (processMoisture adc inbox s)"
      by (auto simp: loop_lastProbeValue split: if_splits)
    then have "lastProbeValue (node_of (loop adc b inbox s)) = scaleProbe (adc (adcReads s))"
      using a by (simp add: loop_lastProbeValue)
    then show ?thesis using f by (simp add: loop_Send_iff)
  qed
  show ?thesis
    using a b c d
    by (simp only: processBattery_frame processReset_frame doRestart_frame receive_frame
        wait_frame) blast
qed

theorem lastProbeValue_frame_witness:
  "\<not> (\<exists>c v a. Send c v a \<in> set (actions (loop (\<lambda>_. 512) 50 []
       \<lparr>lastProbeValue = 50, cycleCpt = 1, batteryLowCpt = 0, cycleCptReset = 5,
      probeValueReceived = True, adcReads = 0\<rparr>)))
   \<and> lastProbeValue (node_of (loop (\<lambda>_. 512) 50 []
       \<lparr>lastProbeValue = 50, cycleCpt = 1, batteryLowCpt = 0, cycleCptReset = 5,
      probeValueReceived = True, adcReads = 0\<rparr>)) = 50
   \<and> lastProbeValue (node_of (loop (\<lambda>_. 1023) 50 []
       \<lparr>lastProbeValue = 50, cycleCpt = 1, batteryLowCpt = 0, cycleCptReset = 5,
      probeValueReceived = True, adcReads = 0\<rparr>)) = 100
   \<and> Send CHILD_VALUE_ID 100 True \<in> set (actions (loop (\<lambda>_. 1023) 50 []
       \<lparr>lastProbeValue = 50, cycleCpt = 1, batteryLowCpt = 0, cycleCptReset = 5,
      probeValueReceived = True, adcReads = 0\<rparr>))"
  using lastProbeValue_frame [where adc = "(\<lambda>_. 512)" and inbox = "[]" and b = 50
      and al = True and sw = True and m = "\<lparr>sensor = 0, isAck = True\<rparr>"
      and s = "\<lparr>lastProbeValue = 50, cycleCpt = 1, batteryLowCpt = 0, cycleCptReset = 5,
      probeValueReceived = True, adcReads = 0\<rparr>"]
    lastProbeValue_frame [where adc = "\<lambda>_. 1023" and inbox = "[]" and b = 50
      and al = True and sw = True and m = "\<lparr>sensor = 0, isAck = True\<rparr>"
      and s = "\<lparr>lastProbeValue = 50, cycleCpt = 1, batteryLowCpt = 0, cycleCptReset = 5,
      probeValueReceived = True, adcReads = 0\<rparr>"]
  by (simp add: loop_Send_iff processMoisture_eq scaleProbe_exact FORCE_SEND_AFTER_N_CYCLE_def
      loop_lastProbeValue)

subsection \<open>One sample per cycle\<close>

text \<open>
  Claim C8. The moisture step takes exactly one analog sample per cycle, without oversampling
  or averaging: the percentage is a function of that single sample, and the sample count
  \<open>NUM_READS = 10\<close> has no effect on the reading.

  The result of \<open>processMoisture\<close> is the same for any two input streams that agree on the
  sample it reads, in particular when the \<open>NUM_READS - 1\<close> samples after it differ.
\<close>

theorem processMoisture_single_sample:
  "adcReads (snd (snd (processMoisture adc inbox s))) = adcReads s + 1
   \<and> adcReads (node_of (loop adc b inbox s)) = adcReads s + 1
   \<and> (adc' (adcReads s) = adc (adcReads s) \<longrightarrow>
        processMoisture adc' inbox s = processMoisture adc inbox s)
   \<and> ((\<forall>i. \<not> (adcReads s < i \<and> int i < int (adcReads s) + NUM_READS) \<longrightarrow> adc' i = adc i) \<longrightarrow>
        processMoisture adc' inbox s = processMoisture adc inbox s)
   \<and> (\<forall>c v a. Send c v a \<in> set (actions (loop adc b inbox s)) \<longrightarrow>
        v = scaleProbe (adc (adcReads s)))"
proof -
  have a: "adcReads (snd (snd (processMoisture adc inbox s))) = adcReads s + 1"
    by (simp add: processMoisture_eq wait_frame)
  have b: "processMoisture adc' inbox s = processMoisture adc inbox s"
    if "adc' (adcReads s) = adc (adcReads s)"
    using that by (simp only: processMoisture_eq)
  have c: "processMoisture adc' inbox s = processMoisture adc inbox s"
    if "\<forall>i. \<not> (adcReads s < i \<and> int i < int (adcReads s) + NUM_READS) \<longrightarrow> adc' i = adc i"
  proof -
    from that have "adc' (adcReads s) = adc (adcReads s)" by simp
    then show ?thesis by (rule b)
  qed
  have d: "\<forall>c v a. Send c v a \<in> set (actions (loop adc b inbox s)) \<longrightarrow>
        v = scaleProbe (adc (adcReads s))"
    by (simp add: loop_Send_iff)
  show ?thesis using a b c d by (simp only: loop_adcReads) blast
qed

theorem processMoisture_single_sample_witness:
  "processMoisture (\<lambda>i. if 0 < i \<and> i < 10 then 0 else 512) [] (boot 0)
     = processMoisture (\<lambda>_. 512) [] (boot 0)
   \<and> adcReads (snd (snd (processMoisture (\<lambda>_. 512) [] (boot 0)))) = 1
   \<and> adcReads (node_of (loop (\<lambda>_. 512) 50 [] (boot 0))) = 1"
  using processMoisture_single_sample [where adc = "(\<lambda>_. 512)" and inbox = "[]" and s = "boot 0"
      and adc' = "\<lambda>i. if 0 < i \<and> i < 10 then 0 else 512" and b = 50]
  by (simp add: boot_fields NUM_READS_def)

subsection \<open>The force-send counter is bounded\<close>

text \<open>
  Claim C9. In every state reachable from power-on, where \<open>cycleCpt\<close> starts at the
  force-send threshold, \<open>cycleCpt\<close> is at most \<open>FORCE_SEND_AFTER_N_CYCLE = 3\<close>; so the equality
  test of line 215 is equivalent to the counter having reached the threshold.
\<close>

theorem cycleCpt_bounded:
  "cycleCpt (run adc es (boot k)) \<le> FORCE_SEND_AFTER_N_CYCLE
   \<and> unat (cycleCpt (run adc es (boot k))) \<le> 3
   \<and> ((cycleCpt (run adc es (boot k)) = FORCE_SEND_AFTER_N_CYCLE)
        = (FORCE_SEND_AFTER_N_CYCLE \<le> cycleCpt (run adc es (boot k))))"
proof -
  have le: "cycleCpt (run adc es (boot k)) \<le> FORCE_SEND_AFTER_N_CYCLE"
    by (rule reachable_cycleCpt_le)
  then have "unat (cycleCpt (run adc es (boot k))) \<le> 3"
    by (simp add: FORCE_SEND_AFTER_N_CYCLE_def word_le_nat_alt)
  moreover have "(cycleCpt (run adc es (boot k)) = FORCE_SEND_AFTER_N_CYCLE)
        = (FORCE_SEND_AFTER_N_CYCLE \<le> cycleCpt (run adc es (boot k)))"
    using le by auto
  ultimately show ?thesis using le by simp
qed

theorem cycleCpt_bounded_witness:
  "cycleCpt (run (\<lambda>_. 512) [Cycle 50 [\<lparr>sensor = 0, isAck = True\<rparr>]] (boot 0)) = 0
   \<and> cycleCpt (run (\<lambda>_. 512) [Cycle 50 [\<lparr>sensor = 0, isAck = True\<rparr>]] (boot 0)) \<le> FORCE_SEND_AFTER_N_CYCLE
   \<and> cycleCpt (run (\<lambda>_. 512) [] (boot 0)) = FORCE_SEND_AFTER_N_CYCLE
   \<and> FORCE_SEND_AFTER_N_CYCLE \<le> cycleCpt (run (\<lambda>_. 512) [] (boot 0))"
  using cycleCpt_bounded [of "(\<lambda>_. 512)" "[Cycle 50 [\<lparr>sensor = 0, isAck = True\<rparr>]]" 0]
    cycleCpt_bounded [of "(\<lambda>_. 512)" "[]" 0]
  by (simp add: example_loop boot_cycleCpt)

subsection \<open>The terminal low-battery branch\<close>

text \<open>
  Claim C10. When the terminal low-battery branch is taken, the battery level 0 is sent
  whether or not \<open>allowSend\<close> holds, and \<open>batteryLowCpt\<close> is reset to 0 before the node sleeps;
  so after a wake-up three further consecutive low readings are needed before the branch is
  taken again.

  The other steps of a cycle and \<open>receive\<close> leave \<open>batteryLowCpt\<close> as it is.
\<close>

theorem low_battery_branch:
  "(SEND_BATTERY_LOW_AFTER_N_CYCLE \<le> batteryLowCpt (countBatteryLow b s) \<longrightarrow>
      processBattery b False s
        = ([SendBatteryLevel 0, SleepInterrupt 1 0], (countBatteryLow b s)\<lparr>batteryLowCpt := 0\<rparr>)
      \<and> processBattery b True s
        = ([SendBatteryLevel (uint8_of_float b), SendBatteryLevel 0, SleepInterrupt 1 0],
           (countBatteryLow b s)\<lparr>batteryLowCpt := 0\<rparr>))
   \<and> (SleepInterrupt 1 0 \<in> set (fst (processBattery b al s)) \<longrightarrow>
        SendBatteryLevel 0 \<in> set (fst (processBattery b al s))
        \<and> batteryLowCpt (snd (processBattery b al s)) = 0
        \<and> (let s0 = snd (processBattery b al s);
                (t1, s1) = processBattery b1 al1 s0;
                (t2, s2) = processBattery b2 al2 s1;
                (t3, s3) = processBattery b3 al3 s2
            in SleepInterrupt 1 0 \<notin> set t1 \<and> SleepInterrupt 1 0 \<notin> set t2
               \<and> (SleepInterrupt 1 0 \<in> set t3 \<longleftrightarrow>
                    b1 < BATTERY_LOW_LIMIT \<and> b2 < BATTERY_LOW_LIMIT \<and> b3 < BATTERY_LOW_LIMIT)))
   \<and> batteryLowCpt (snd (snd (processMoisture adc inbox s))) = batteryLowCpt s
   \<and> batteryLowCpt (node_of (processReset s)) = batteryLowCpt s
   \<and> batteryLowCpt (receive m s) = batteryLowCpt s"
proof -
  have a: "processBattery b False s
        = ([SendBatteryLevel 0, SleepInterrupt 1 0], (countBatteryLow b s)\<lparr>batteryLowCpt := 0\<rparr>)
      \<and> processBattery b True s
        = ([SendBatteryLevel (uint8_of_float b), SendBatteryLevel 0, SleepInterrupt 1 0],
           (countBatteryLow b s)\<lparr>batteryLowCpt := 0\<rparr>)"
    if "SEND_BATTERY_LOW_AFTER_N_CYCLE \<le> batteryLowCpt (countBatteryLow b s)"
    using that by (simp add: processBattery_def batteryLowConfirmed_def Let_def)
  have three: "(let (t1, s1) = processBattery b1 al1 s0;
                (t2, s2) = processBattery b2 al2 s1;
                (t3, s3) = processBattery b3 al3 s2
            in SleepInterrupt 1 0 \<notin> set t1 \<and> SleepInterrupt 1 0 \<notin> set t2
               \<and> (SleepInterrupt 1 0 \<in> set t3 \<longleftrightarrow>
                    b1 < BATTERY_LOW_LIMIT \<and> b2 < BATTERY_LOW_LIMIT \<and> b3 < BATTERY_LOW_LIMIT))"
    if "batteryLowCpt s0 = 0" for s0
    using that by (simp add: processBattery_eq BATTERY_LOW_LIMIT_def word16_not_3_le_1)
  have b: "SendBatteryLevel 0 \<in> set (fst (processBattery b al s))
        \<and> batteryLowCpt (snd (processBattery b al s)) = 0"
    if "SleepInterrupt 1 0 \<in> set (fst (processBattery b al s))"
    using that by (simp add: processBattery_eq split: if_splits)
  have c: "(let s0 = snd (processBattery b al s);
                (t1, s1) = processBattery b1 al1 s0;
                (t2, s2) = processBattery b2 al2 s1;
                (t3, s3) = processBattery b3 al3 s2
            in SleepInterrupt 1 0 \<notin> set t1 \<and> SleepInterrupt 1 0 \<notin> set t2
               \<and> (SleepInterrupt 1 0 \<in> set t3 \<longleftrightarrow>
                    b1 < BATTERY_LOW_LIMIT \<and> b2 < BATTERY_LOW_LIMIT \<and> b3 < BATTERY_LOW_LIMIT))"
    if "SleepInterrupt 1 0 \<in> set (fst (processBattery b al s))"
    using three[of "snd (processBattery b al s)"] b[OF that] by (simp only: Let_def) 
  show ?thesis
    using a b c
    by (simp only: processMoisture_batteryLowCpt processReset_frame receive_frame) blast
qed

theorem low_battery_branch_witness:
  "processBattery 9 False
       \<lparr>lastProbeValue = 50, cycleCpt = 1, batteryLowCpt = 2, cycleCptReset = 5,
      probeValueReceived = True, adcReads = 0\<rparr>
     = ([SendBatteryLevel 0, SleepInterrupt 1 0],
        (countBatteryLow 9
       \<lparr>lastProbeValue = 50, cycleCpt = 1, batteryLowCpt = 2, cycleCptReset = 5,
      probeValueReceived = True, adcReads = 0\<rparr>)\<lparr>batteryLowCpt := 0\<rparr>)
   \<and> batteryLowCpt (snd (processBattery 9 False
       \<lparr>lastProbeValue = 50, cycleCpt = 1, batteryLowCpt = 2, cycleCptReset = 5,
      probeValueReceived = True, adcReads = 0\<rparr>)) = 0
   \<and> SleepInterrupt 1 0 \<notin> set (fst (processBattery 9 False (snd (processBattery 9 False
       \<lparr>lastProbeValue = 50, cycleCpt = 1, batteryLowCpt = 2, cycleCptReset = 5,
      probeValueReceived = True, adcReads = 0\<rparr>))))
   \<and> SleepInterrupt 1 0 \<in> set (fst (processBattery 9 False (snd (processBattery 9 False
       (snd (processBattery 9 False (snd (processBattery 9 False
       \<lparr>lastProbeValue = 50, cycleCpt = 1, batteryLowCpt = 2, cycleCptReset = 5,
      probeValueReceived = True, adcReads = 0\<rparr>))))))))"
proof -
  define s where "s =
       \<lparr>lastProbeValue = 50, cycleCpt = 1, batteryLowCpt = 2, cycleCptReset = 5,
      probeValueReceived = True, adcReads = 0\<rparr>"
  note t = low_battery_branch [where b = 9 and al = False and ?b1.0 = 9 and ?b2.0 = 9
      and ?b3.0 = 9 and ?al1.0 = False and ?al2.0 = False and ?al3.0 = False
      and adc = "\<lambda>_. 512" and inbox = "[]" and m = "\<lparr>sensor = 0, isAck = True\<rparr>" and s = s]
  have c: "SEND_BATTERY_LOW_AFTER_N_CYCLE \<le> batteryLowCpt (countBatteryLow 9 s)"
    by (simp add: s_def countBatteryLow_cpt SEND_BATTERY_LOW_AFTER_N_CYCLE_def)
  have lim: "(9::rat) < BATTERY_LOW_LIMIT" by (simp add: BATTERY_LOW_LIMIT_def)
  from t c have w1: "processBattery 9 False s
     = ([SendBatteryLevel 0, SleepInterrupt 1 0], (countBatteryLow 9 s)\<lparr>batteryLowCpt := 0\<rparr>)"
    by blast
  then have fired: "SleepInterrupt 1 0 \<in> set (fst (processBattery 9 False s))"
    by simp
  from t fired have w2: "batteryLowCpt (snd (processBattery 9 False s)) = 0" by blast
  from t fired have "let s0 = snd (processBattery 9 False s);
                (t1, s1) = processBattery 9 False s0;
                (t2, s2) = processBattery 9 False s1;
                (t3, s3) = processBattery 9 False s2
            in SleepInterrupt 1 0 \<notin> set t1 \<and> SleepInterrupt 1 0 \<notin> set t2
               \<and> (SleepInterrupt 1 0 \<in> set t3 \<longleftrightarrow>
                    9 < BATTERY_LOW_LIMIT \<and> 9 < BATTERY_LOW_LIMIT \<and> 9 < BATTERY_LOW_LIMIT)"
    by blast
  then have w3: "SleepInterrupt 1 0 \<notin> set (fst (processBattery 9 False (snd (processBattery 9 False s))))
   \<and> SleepInterrupt 1 0 \<in> set (fst (processBattery 9 False (snd (processBattery 9 False
       (snd (processBattery 9 False (snd (processBattery 9 False s))))))))"
    using lim by (simp only: Let_def case_prod_beta) simp
  from w1 w2 w3 show ?thesis unfolding s_def by blast
qed

end
